theory Spec2Isabelle
  imports Main
begin

section \<open>The silence detector of \<^verbatim>\<open>plugins/Silence.cpp\<close>\<close>

text \<open>
  The plugin classifies each block of audio as silent or not, remembers the class of the
  block before, and on a change looks for the place of the change inside the block or
  in the block before it. The level test itself (\<^verbatim>\<open>aubio_silence_detection\<close>), the buffer
  type \<^verbatim>\<open>fvec_t\<close> with its allocator, and the time type of the host
  (\<^verbatim>\<open>Vamp::RealTime\<close>) belong to other libraries. They are parameters of the model.

  Conventions of the embedding:
  \<^item> \<^verbatim>\<open>float\<close> and \<^verbatim>\<open>smpl_t\<close> are one type parameter \<open>'a\<close>; only the constants
    \<open>0\<close> and \<open>1\<close> of it are used by the plugin.
  \<^item> \<^verbatim>\<open>size_t\<close> is \<open>nat\<close> and \<^verbatim>\<open>long\<close> is \<open>int\<close>. The loop bounds
    \<^verbatim>\<open>m_stepSize - incr * 4\<close> and \<^verbatim>\<open>m_stepSize - incr\<close> are unsigned subtractions; with the
    step the plugin computes they never wrap (lemmas \<open>window_fits\<close> and
    \<open>incr_le_stepSize\<close> below), so the truncating subtraction of \<open>nat\<close> is exact. The
    counters stay below the step size, so \<^verbatim>\<open>i += incr\<close> does not wrap and the conversion
    of \<^verbatim>\<open>i\<close> to \<^verbatim>\<open>long\<close> is exact. A size stored in a buffer is reduced to aubio's
    32-bit \<^verbatim>\<open>uint_t\<close> (\<open>uint_t\<close> below).
  \<^item> A call that may run forever returns \<open>None\<close>; a call that dereferences a null
    buffer pointer returns \<open>Inl NullPointer\<close>.
  \<^item> The lines written to \<^verbatim>\<open>std::cerr\<close> influence no value and are left out.
\<close>

subsection \<open>Storage and buffers\<close>

type_synonym addr = nat

text \<open>
  A value of type \<^verbatim>\<open>smpl_t **\<close>: the channel pointers of one block of storage, each
  advanced by the same number of samples. \<^verbatim>\<open>m_ibuf->data\<close> is \<open>Rows a 0\<close>; the scratch
  array after \<^verbatim>\<open>m_tmpptrs[j] = m_ibuf->data[j] + i\<close> for every channel is \<open>Rows a i\<close>.
\<close>

datatype smpl_pp = Rows (block: addr) (skip: nat)

fun advance :: "smpl_pp \<Rightarrow> nat \<Rightarrow> smpl_pp" where
  "advance (Rows a k) i = Rows a (k + i)"

record fvec_t =
  length_t :: nat
  channels :: nat
  data :: smpl_pp

text \<open>
  The store lists the blocks of storage allocated so far, each as its rows (one list of
  samples per channel). An address is a position in that list.
\<close>

type_synonym 'a store = "'a list list list"

subsection \<open>Features\<close>

text \<open>The members of \<^verbatim>\<open>Vamp::Plugin::Feature\<close> that the plugin sets.\<close>

record ('t, 'a) Feature =
  hasTimestamp :: bool
  timestamp :: 't
  values_f :: "'a list"

text \<open>
  \<^verbatim>\<open>FeatureSet\<close> is a \<^verbatim>\<open>std::map\<close> from output number to a list of features.
  Indexing with \<^verbatim>\<open>[]\<close> creates the entry when it is absent.
\<close>

type_synonym ('t, 'a) FeatureSet = "int \<rightharpoonup> ('t, 'a) Feature list"

definition push_back :: "int \<Rightarrow> ('t, 'a) Feature \<Rightarrow> ('t, 'a) FeatureSet \<Rightarrow> ('t, 'a) FeatureSet" where
  "push_back k f fs = fs(k \<mapsto> (case fs k of None \<Rightarrow> [] | Some l \<Rightarrow> l) @ [f])"

subsection \<open>What the plugin takes from outside\<close>

text \<open>
  The level test of the aubio library, which reads the store through the window it is
  given, and the host's time arithmetic: \<^verbatim>\<open>Vamp::RealTime::frame2RealTime\<close>, the addition of
  two times, and the rounding of the sample rate.
\<close>

record ('t, 'a) extern =
  aubio_silence_detection :: "'a store \<Rightarrow> fvec_t \<Rightarrow> 'a \<Rightarrow> bool"
  frame2RealTime :: "int \<Rightarrow> int \<Rightarrow> 't"
  rt_plus :: "'t \<Rightarrow> 't \<Rightarrow> 't"
  lrintf :: "'a \<Rightarrow> int"

subsection \<open>The object\<close>

text \<open>
  The members of the class, and the store its buffers live in. \<^verbatim>\<open>m_ibuf\<close> and \<^verbatim>\<open>m_pbuf\<close>
  are pointers to buffers, null (\<open>None\<close>) until \<open>initialise\<close>. Of the scratch array
  \<^verbatim>\<open>m_tmpptrs\<close> the model keeps the size: its entries are set anew before each probe and
  read by that probe only (\<open>forward_window\<close> and \<open>backward_window\<close> below).
\<close>

record 'a Silence =
  m_inputSampleRate :: 'a
  m_ibuf :: "fvec_t option"
  m_pbuf :: "fvec_t option"
  m_tmpptrs :: "nat option"
  m_threshold :: 'a
  m_prevSilent :: bool
  m_first :: bool
  m_channelCount :: nat
  m_stepSize :: nat
  m_blockSize :: nat
  heap :: "'a store"

datatype error = NullPointer

text \<open>
  The constructor leaves \<^verbatim>\<open>m_channelCount\<close>, \<^verbatim>\<open>m_stepSize\<close> and \<^verbatim>\<open>m_blockSize\<close>
  uninitialised; \<open>junk\<close> stands for whatever they hold. Nothing is allocated yet.
\<close>

definition Silence :: "'a::{uminus,numeral} \<Rightarrow> nat \<times> nat \<times> nat \<Rightarrow> 'a Silence" where
  "Silence inputSampleRate junk =
     \<lparr> m_inputSampleRate = inputSampleRate,
       m_ibuf = None,
       m_pbuf = None,
       m_tmpptrs = None,
       m_threshold = - 70,
       m_prevSilent = False,
       m_first = True,
       m_channelCount = fst junk,
       m_stepSize = fst (snd junk),
       m_blockSize = snd (snd junk),
       heap = [] \<rparr>"

text \<open>
  The members \<^verbatim>\<open>length\<close> and \<^verbatim>\<open>channels\<close> of \<^verbatim>\<open>fvec_t\<close> and the parameters of
  \<^verbatim>\<open>new_fvec\<close> have aubio's type \<^verbatim>\<open>uint_t\<close>, an unsigned integer of 32 bits. A
  \<^verbatim>\<open>size_t\<close> stored there is taken modulo \<open>2 ^ 32\<close> (lemma \<open>uint_t_mod\<close>; the
  remainder is computed on \<open>int\<close>, whose numerals evaluate in binary).
\<close>

definition uint_t :: "nat \<Rightarrow> nat" where
  "uint_t n = nat (int n mod 2 ^ 32)"

text \<open>
  \<^verbatim>\<open>new_fvec\<close> of the aubio library: a new buffer of the given length and channel count,
  both converted to \<^verbatim>\<open>uint_t\<close>, on storage of its own, filled with zeros.
\<close>

definition new_fvec :: "nat \<Rightarrow> nat \<Rightarrow> 'a::zero Silence \<Rightarrow> fvec_t \<times> 'a Silence" where
  "new_fvec len chans s =
     (\<lparr> length_t = uint_t len, channels = uint_t chans, data = Rows (length (heap s)) 0 \<rparr>,
      s\<lparr> heap := heap s @ [replicate (uint_t chans) (replicate (uint_t len) 0)] \<rparr>)"

definition initialise :: "nat \<Rightarrow> nat \<Rightarrow> nat \<Rightarrow> 'a::zero Silence \<Rightarrow> bool \<times> 'a Silence" where
  "initialise chans stepSize blockSize s =
     (let s = s\<lparr> m_channelCount := chans, m_stepSize := stepSize, m_blockSize := blockSize \<rparr>;
          (ib, s) = new_fvec stepSize chans s;
          (pb, s) = new_fvec stepSize chans s
      in (True, s\<lparr> m_ibuf := Some ib, m_pbuf := Some pb, m_tmpptrs := Some chans \<rparr>))"

definition reset :: "'a Silence \<Rightarrow> 'a Silence" where
  "reset s = s\<lparr> m_first := True \<rparr>"

definition getParameter :: "string \<Rightarrow> 'a::zero Silence \<Rightarrow> 'a" where
  "getParameter param s = (if param = ''silencethreshold'' then m_threshold s else 0)"

definition setParameter :: "string \<Rightarrow> 'a \<Rightarrow> 'a Silence \<Rightarrow> 'a Silence" where
  "setParameter param v s = (if param = ''silencethreshold'' then s\<lparr> m_threshold := v \<rparr> else s)"

subsection \<open>Processing one block\<close>

text \<open>
  \<^verbatim>\<open>fvec_write_sample\<close> of the aubio library stores one sample:
  \<^verbatim>\<open>s->data[channel][position] = data\<close>. In an initialised object (predicate
  \<open>initialised\<close> below) every write of \<open>process\<close> is inside the buffer (lemma
  \<open>read_block_rows\<close>), and the counters it passes are below the buffer's length and
  channel count, so that their conversion to \<^verbatim>\<open>uint_t\<close> changes nothing. In any other
  object the writes of the source are undefined; there a list update outside the list
  changes nothing, and no theorem below is about such an object.
\<close>

definition fvec_write_sample :: "'a store \<Rightarrow> fvec_t \<Rightarrow> 'a \<Rightarrow> nat \<Rightarrow> nat \<Rightarrow> 'a store" where
  "fvec_write_sample h s v channel position =
     (let a = block (data s); rows = h ! a
      in h[a := rows[channel := (rows ! channel)[skip (data s) + position := v]]])"

text \<open>
  Lines 190 to 194. The host's \<^verbatim>\<open>inputBuffers\<close> are bare pointers: \<open>inputBuffers j i\<close> is
  sample \<open>i\<close> of channel \<open>j\<close>.
\<close>

definition read_block :: "'a Silence \<Rightarrow> fvec_t \<Rightarrow> (nat \<Rightarrow> nat \<Rightarrow> 'a) \<Rightarrow> 'a store" where
  "read_block s ib inputBuffers =
     fold (\<lambda>i h. fold (\<lambda>j h. fvec_write_sample h ib (inputBuffers j i) j i)
                      [0..<m_channelCount s] h)
          [0..<m_stepSize s] (heap s)"

text \<open>Lines 208 and 209: the step of both searches.\<close>

definition incr_of :: "nat \<Rightarrow> nat" where
  "incr_of stepSize = (let incr = 16 in if incr > stepSize div 8 then stepSize div 8 else incr)"

text \<open>
  Lines 211 to 214: the window handed to the level test, on the given channel pointers.
  Its two sizes are stored in \<^verbatim>\<open>uint_t\<close> members.
\<close>

definition sub_vec :: "'a Silence \<Rightarrow> nat \<Rightarrow> smpl_pp \<Rightarrow> fvec_t" where
  "sub_vec s incr ptrs =
     \<lparr> length_t = uint_t (incr * 4), channels = uint_t (m_channelCount s), data = ptrs \<rparr>"

text \<open>
  Lines 221 to 223 and 234 to 236: where the scratch pointers are set before a probe, in
  the current block by the forward search and in the block before by the backward search.
\<close>

definition forward_window :: "'a Silence \<Rightarrow> fvec_t \<Rightarrow> nat \<Rightarrow> nat \<Rightarrow> fvec_t" where
  "forward_window s ib incr i = sub_vec s incr (advance (data ib) i)"

definition backward_window :: "'a Silence \<Rightarrow> fvec_t \<Rightarrow> nat \<Rightarrow> nat \<Rightarrow> fvec_t" where
  "backward_window s pb incr i = sub_vec s incr (advance (data pb) (m_stepSize s - i - incr))"

text \<open>
  Lines 220 to 230, from counter \<open>i\<close> on. The result is the value of \<^verbatim>\<open>off\<close> after the
  loop: \<open>i\<close> at the \<^verbatim>\<open>break\<close>, and the initial \<open>0\<close> when the loop runs out.
\<close>

partial_function (option) forward_search ::
  "('t, 'a) extern \<Rightarrow> 'a Silence \<Rightarrow> fvec_t \<Rightarrow> bool \<Rightarrow> nat \<Rightarrow> nat \<Rightarrow> int option" where
  "forward_search ext s ib silent incr i =
     (if i < m_stepSize s - incr * 4 then
        (if silent = aubio_silence_detection ext (heap s) (forward_window s ib incr i)
                       (m_threshold s)
         then Some (int i)
         else forward_search ext s ib silent incr (i + incr))
      else Some 0)"

text \<open>
  Lines 233 to 245, from counter \<open>i\<close> on; it is entered with \<^verbatim>\<open>off == 0\<close>, which is the
  result when the loop runs out.
\<close>

partial_function (option) backward_search ::
  "('t, 'a) extern \<Rightarrow> 'a Silence \<Rightarrow> fvec_t \<Rightarrow> nat \<Rightarrow> nat \<Rightarrow> int option" where
  "backward_search ext s pb incr i =
     (if i < m_stepSize s - incr then
        (if \<not> aubio_silence_detection ext (heap s) (backward_window s pb incr i)
                 (m_threshold s)
         then Some (- int i)
         else backward_search ext s pb incr (i + incr))
      else Some 0)"

text \<open>Lines 207 to 247: the offset \<^verbatim>\<open>off\<close> of the change, in samples from the block's start.\<close>

definition refine :: "('t, 'a) extern \<Rightarrow> 'a Silence \<Rightarrow> fvec_t \<Rightarrow> fvec_t \<Rightarrow> bool \<Rightarrow> int option" where
  "refine ext s ib pb silent =
     (let incr = incr_of (m_stepSize s) in
      case forward_search ext s ib silent incr 0 of
        None \<Rightarrow> None
      | Some off \<Rightarrow>
          if silent \<and> off = 0 then backward_search ext s pb incr 0 else Some off)"

text \<open>Lines 253 to 264: the level sample on output 2 and the instant on output 0 or 1.\<close>

definition emit :: "bool \<Rightarrow> 't \<Rightarrow> ('t, 'a::zero_neq_one) FeatureSet" where
  "emit silent featureStamp =
     (let feature = \<lparr> hasTimestamp = True, timestamp = featureStamp,
                      values_f = [if silent then 0 else 1] \<rparr>;
          returnFeatures = push_back 2 feature Map.empty;
          feature = feature\<lparr> values_f := [] \<rparr>
      in if silent then push_back 0 feature returnFeatures
         else push_back 1 feature returnFeatures)"

text \<open>Lines 273 to 275: the two buffers exchange their \<^verbatim>\<open>data\<close> pointers.\<close>

definition swap_data :: "fvec_t \<Rightarrow> fvec_t \<Rightarrow> 'a Silence \<Rightarrow> 'a Silence" where
  "swap_data ib pb s =
     (let tmpdata = data ib
      in s\<lparr> m_ibuf := Some (ib\<lparr> data := data pb \<rparr>), m_pbuf := Some (pb\<lparr> data := tmpdata \<rparr>) \<rparr>)"

text \<open>
  Lines 186 to 278. Both buffers are dereferenced on every path (at the latest by the
  exchange of their pointers), so a call before \<open>initialise\<close> fails. The result is \<open>None\<close>
  when a search does not end.
\<close>

definition process ::
  "('t, 'a::zero_neq_one) extern \<Rightarrow> (nat \<Rightarrow> nat \<Rightarrow> 'a) \<Rightarrow> 't \<Rightarrow> 'a Silence
     \<Rightarrow> (error + ('t, 'a) FeatureSet \<times> 'a Silence) option" where
  "process ext inputBuffers timestamp_in s =
     (case (m_ibuf s, m_pbuf s) of
        (Some ib, Some pb) \<Rightarrow>
          (let s = s\<lparr> heap := read_block s ib inputBuffers \<rparr>;
               silent = aubio_silence_detection ext (heap s) ib (m_threshold s)
           in if m_first s \<or> m_prevSilent s \<noteq> silent then
                (case (if (silent \<and> \<not> m_first s) \<or> \<not> silent
                       then map_option
                              (\<lambda>off. rt_plus ext timestamp_in
                                 (frame2RealTime ext off (lrintf ext (m_inputSampleRate s))))
                              (refine ext s ib pb silent)
                       else Some timestamp_in) of
                   None \<Rightarrow> None
                 | Some featureStamp \<Rightarrow>
                     Some (Inr (emit silent featureStamp,
                                swap_data ib pb (s\<lparr> m_prevSilent := silent, m_first := False \<rparr>))))
              else Some (Inr (Map.empty, swap_data ib pb s)))
      | _ \<Rightarrow> Some (Inl NullPointer))"

text \<open>\<^verbatim>\<open>getRemainingFeatures\<close> returns an empty set.\<close>

definition getRemainingFeatures :: "'a Silence \<Rightarrow> ('t, 'a) FeatureSet" where
  "getRemainingFeatures s = Map.empty"

subsection \<open>The host's calls in sequence\<close>

datatype ('t, 'a) call =
    Initialise nat nat nat
  | Reset
  | SetParameter string 'a
  | Process "nat \<Rightarrow> nat \<Rightarrow> 'a" 't

text \<open>
  The feature sets of the \<open>Process\<close> calls in order, and the object at the end. A call
  that does not return, or that fails, ends the sequence with that outcome.
\<close>

fun host ::
  "('t, 'a::zero_neq_one) extern \<Rightarrow> ('t, 'a) call list \<Rightarrow> 'a Silence
     \<Rightarrow> (error + ('t, 'a) FeatureSet list \<times> 'a Silence) option" where
  "host ext [] s = Some (Inr ([], s))"
| "host ext (Initialise chans stepSize blockSize # cs) s =
     host ext cs (snd (initialise chans stepSize blockSize s))"
| "host ext (Reset # cs) s = host ext cs (reset s)"
| "host ext (SetParameter param v # cs) s = host ext cs (setParameter param v s)"
| "host ext (Process inputBuffers t # cs) s =
     (case process ext inputBuffers t s of
        None \<Rightarrow> None
      | Some (Inl e) \<Rightarrow> Some (Inl e)
      | Some (Inr (fs, s')) \<Rightarrow>
          (case host ext cs s' of
             None \<Rightarrow> None
           | Some (Inl e) \<Rightarrow> Some (Inl e)
           | Some (Inr (out, s'')) \<Rightarrow> Some (Inr (fs # out, s''))))"

text \<open>The three outputs of a feature set: silence starts, silence ends, level.\<close>

definition slots ::
  "('t, 'a) FeatureSet \<Rightarrow> ('t, 'a) Feature list \<times> ('t, 'a) Feature list \<times> ('t, 'a) Feature list" where
  "slots fs = (case fs 0 of None \<Rightarrow> [] | Some l \<Rightarrow> l,
               case fs 1 of None \<Rightarrow> [] | Some l \<Rightarrow> l,
               case fs 2 of None \<Rightarrow> [] | Some l \<Rightarrow> l)"

definition session ::
  "('t, 'a::{zero_neq_one,uminus,numeral}) extern \<Rightarrow> 'a \<Rightarrow> ('t, 'a) call list
     \<Rightarrow> (error + (('t, 'a) Feature list \<times> ('t, 'a) Feature list \<times> ('t, 'a) Feature list) list) option" where
  "session ext rate cs =
     (case host ext cs (Silence rate (0, 0, 0)) of
        None \<Rightarrow> None
      | Some (Inl e) \<Rightarrow> Some (Inl e)
      | Some (Inr (out, s)) \<Rightarrow> Some (Inr (map slots out)))"

definition state_after ::
  "('t, 'a::{zero_neq_one,uminus,numeral}) extern \<Rightarrow> 'a \<Rightarrow> ('t, 'a) call list \<Rightarrow> 'a Silence" where
  "state_after ext rate cs =
     (case host ext cs (Silence rate (0, 0, 0)) of
        Some (Inr (out, s)) \<Rightarrow> s
      | _ \<Rightarrow> Silence rate (0, 0, 0))"

text \<open>The time stamps of all features of a feature set, output by output.\<close>

definition stamps :: "('t, 'a) FeatureSet \<Rightarrow> 't list" where
  "stamps fs = (case slots fs of (starts, ends, level) \<Rightarrow> map timestamp (starts @ ends @ level))"

subsection \<open>States that \<open>initialise\<close> has set up\<close>

definition rows_fit :: "'a Silence \<Rightarrow> 'a list list \<Rightarrow> bool" where
  "rows_fit s rows =
     (length rows = m_channelCount s \<and> list_all (\<lambda>row. length row = m_stepSize s) rows)"

definition buffer_fits :: "'a Silence \<Rightarrow> fvec_t \<Rightarrow> bool" where
  "buffer_fits s b =
     (length_t b = m_stepSize s \<and> channels b = m_channelCount s \<and> skip (data b) = 0 \<and>
      block (data b) < length (heap s) \<and> rows_fit s (heap s ! block (data b)))"

definition initialised :: "'a Silence \<Rightarrow> bool" where
  "initialised s =
     (case (m_ibuf s, m_pbuf s) of
        (Some ib, Some pb) \<Rightarrow>
          buffer_fits s ib \<and> buffer_fits s pb \<and> block (data ib) \<noteq> block (data pb)
      | _ \<Rightarrow> False)"

text \<open>
  The samples of a block as rows, the object once the block is read into \<^verbatim>\<open>m_ibuf\<close>
  (after line 194), and the class the plugin gives the block (line 196).
\<close>

definition block_rows :: "'a Silence \<Rightarrow> (nat \<Rightarrow> nat \<Rightarrow> 'a) \<Rightarrow> 'a list list" where
  "block_rows s inputBuffers =
     map (\<lambda>j. map (\<lambda>i. inputBuffers j i) [0..<m_stepSize s]) [0..<m_channelCount s]"

definition loaded :: "'a Silence \<Rightarrow> (nat \<Rightarrow> nat \<Rightarrow> 'a) \<Rightarrow> 'a Silence" where
  "loaded s inputBuffers =
     (case m_ibuf s of
        None \<Rightarrow> s
      | Some ib \<Rightarrow> s\<lparr> heap := read_block s ib inputBuffers \<rparr>)"

definition block_silent :: "('t, 'a) extern \<Rightarrow> (nat \<Rightarrow> nat \<Rightarrow> 'a) \<Rightarrow> 'a Silence \<Rightarrow> bool" where
  "block_silent ext inputBuffers s =
     (case m_ibuf s of
        None \<Rightarrow> False
      | Some ib \<Rightarrow>
          aubio_silence_detection ext (read_block s ib inputBuffers) ib (m_threshold s))"

subsection \<open>A level test and a clock for worked examples\<close>

text \<open>
  A stand-in for the level test on integer samples: a window is silent when it is not
  empty and every sample in it is below \<open>100 + threshold\<close> in magnitude. Time is counted
  in frames.
\<close>

definition level_test :: "int store \<Rightarrow> fvec_t \<Rightarrow> int \<Rightarrow> bool" where
  "level_test h v thr =
     (length_t v \<noteq> 0 \<and>
      list_all (\<lambda>row. list_all (\<lambda>x. \<bar>x\<bar> < 100 + thr)
                               (take (length_t v) (drop (skip (data v)) row)))
               (take (channels v) (h ! block (data v))))"

definition frames :: "(int, int) extern" where
  "frames = \<lparr> aubio_silence_detection = level_test, frame2RealTime = (\<lambda>off rate. off),
              rt_plus = (+), lrintf = id \<rparr>"

text \<open>The same, except that a window whose length is not 4 always counts as silent.\<close>

definition picky :: "(int, int) extern" where
  "picky = frames\<lparr> aubio_silence_detection :=
                     (\<lambda>h v thr. if length_t v = 4 then level_test h v thr else True) \<rparr>"

definition quiet_block :: "nat \<Rightarrow> nat \<Rightarrow> int" where
  "quiet_block j i = 0"

definition loud_block :: "nat \<Rightarrow> nat \<Rightarrow> int" where
  "loud_block j i = 50"

definition late_block :: "nat \<Rightarrow> nat \<Rightarrow> int" where
  "late_block j i = (if i < 5 then 0 else 50)"

subsection \<open>The searches as the specification words them\<close>

text \<open>
  The positions \<open>i, i + incr, i + 2 * incr, \<dots>\<close> below \<open>bound\<close>, and the value at the first
  of them that passes a test, \<open>0\<close> when none does.
\<close>

definition probe_positions :: "nat \<Rightarrow> nat \<Rightarrow> nat \<Rightarrow> nat list" where
  "probe_positions i incr bound = map (\<lambda>k. i + k * incr) [0..<(bound - i + incr - 1) div incr]"

fun first_at :: "(nat \<Rightarrow> bool) \<Rightarrow> (nat \<Rightarrow> int) \<Rightarrow> nat list \<Rightarrow> int" where
  "first_at P f [] = 0"
| "first_at P f (i # is) = (if P i then f i else first_at P f is)"

section \<open>Properties\<close>

subsection \<open>The search step\<close>

lemma incr_of_min: "incr_of n = min 16 (n div 8)"
  by (simp add: incr_of_def min_def)

lemma window_fits: "incr_of n * 4 \<le> n"
proof -
  have "min 16 (n div 8) * 4 \<le> n div 8 * 8"
    by (simp add: min_def)
  also have "\<dots> \<le> n"
    by simp
  finally show ?thesis
    by (simp add: incr_of_min)
qed

lemma incr_le_stepSize: "incr_of n \<le> n"
  using window_fits [of n] by simp

lemma incr_of_zero_iff: "incr_of n = 0 \<longleftrightarrow> n < 8"
proof -
  have "n div 8 = 0 \<longleftrightarrow> n < 8"
    by (simp add: div_eq_0_iff)
  then show ?thesis
    by (auto simp: incr_of_min min_def)
qed

subsection \<open>Reading the block\<close>

lemma write_sample_at:
  "data b = Rows a 0 \<Longrightarrow>
   fvec_write_sample h b v j i = h[a := (h ! a)[j := (h ! a ! j)[i := v]]]"
  by (simp add: fvec_write_sample_def Let_def)

lemma write_channels:
  assumes "data b = Rows a 0" "a < length h"
  shows "fold (\<lambda>j h. fvec_write_sample h b (inp j i) j i) [0..<m] h =
         h[a := map (\<lambda>j. if j < m then (h ! a ! j)[i := inp j i] else h ! a ! j)
                  [0..<length (h ! a)]]"
proof (induction m)
  case 0
  have "map (\<lambda>j. if j < 0 then (h ! a ! j)[i := inp j i] else h ! a ! j) [0..<length (h ! a)] = h ! a"
    by (rule nth_equalityI) simp_all
  then show ?case by simp
next
  case (Suc m)
  let ?f = "\<lambda>j h. fvec_write_sample h b (inp j i) j i"
  let ?rows = "\<lambda>m. map (\<lambda>j. if j < m then (h ! a ! j)[i := inp j i] else h ! a ! j)
                      [0..<length (h ! a)]"
  have step: "(?rows m)[m := (?rows m ! m)[i := inp m i]] = ?rows (Suc m)"
    by (rule nth_equalityI) (auto simp: nth_list_update less_Suc_eq)
  have "fold ?f [0..<Suc m] h = ?f m (fold ?f [0..<m] h)"
    by simp
  also have "\<dots> = ?f m (h[a := ?rows m])"
    by (simp only: Suc.IH)
  also have "\<dots> = (h[a := ?rows m])[a := (?rows m)[m := (?rows m ! m)[i := inp m i]]]"
    using assms(2) by (simp only: write_sample_at [OF assms(1)] nth_list_update_eq)
  also have "\<dots> = h[a := ?rows (Suc m)]"
    by (simp only: step list_update_overwrite)
  finally show ?case .
qed

lemma write_samples:
  assumes "data b = Rows a 0" "a < length h"
  shows "fold (\<lambda>i h. fold (\<lambda>j h. fvec_write_sample h b (inp j i) j i) [0..<c] h) [0..<k] h =
         h[a := map (\<lambda>j. if j < c
                           then map (\<lambda>i. if i < k then inp j i else h ! a ! j ! i)
                                  [0..<length (h ! a ! j)]
                           else h ! a ! j) [0..<length (h ! a)]]"
proof (induction k)
  case 0
  have "map (\<lambda>j. if j < c
                  then map (\<lambda>i. if i < 0 then inp j i else h ! a ! j ! i) [0..<length (h ! a ! j)]
                  else h ! a ! j) [0..<length (h ! a)] = h ! a"
    by (rule nth_equalityI) (auto intro: nth_equalityI)
  then show ?case by simp
next
  case (Suc k)
  let ?g = "\<lambda>i h. fold (\<lambda>j h. fvec_write_sample h b (inp j i) j i) [0..<c] h"
  let ?row = "\<lambda>k j. map (\<lambda>i. if i < k then inp j i else h ! a ! j ! i) [0..<length (h ! a ! j)]"
  let ?rows = "\<lambda>k. map (\<lambda>j. if j < c then ?row k j else h ! a ! j) [0..<length (h ! a)]"
  have row: "(?row k j)[k := inp j k] = ?row (Suc k) j" for j
    by (rule nth_equalityI) (auto simp: nth_list_update less_Suc_eq)
  have step: "map (\<lambda>j. if j < c then (?rows k ! j)[k := inp j k] else ?rows k ! j)
                [0..<length (?rows k)] = ?rows (Suc k)"
  proof (rule nth_equalityI)
    fix j
    assume "j < length (map (\<lambda>j. if j < c then (?rows k ! j)[k := inp j k] else ?rows k ! j)
                         [0..<length (?rows k)])"
    then have j: "j < length (h ! a)"
      by simp
    show "map (\<lambda>j. if j < c then (?rows k ! j)[k := inp j k] else ?rows k ! j)
                   [0..<length (?rows k)] ! j = ?rows (Suc k) ! j"
    proof (cases "j < c")
      case True
      with j show ?thesis
        using row [of j] by (simp cong: if_cong)
    next
      case False
      with j show ?thesis
        by simp
    qed
  qed simp
  have len: "a < length (h[a := ?rows k])"
    using assms(2) by simp
  have at: "h[a := ?rows k] ! a = ?rows k"
    using assms(2) by (rule nth_list_update_eq)
  have "fold ?g [0..<Suc k] h = ?g k (fold ?g [0..<k] h)"
    by simp
  also have "\<dots> = ?g k (h[a := ?rows k])"
    by (simp only: Suc.IH)
  also have "\<dots> = (h[a := ?rows k])[a := map (\<lambda>j. if j < c then (?rows k ! j)[k := inp j k]
                                                     else ?rows k ! j) [0..<length (?rows k)]]"
    by (simp only: write_channels [OF assms(1) len] at)
  also have "\<dots> = h[a := ?rows (Suc k)]"
    by (simp only: step list_update_overwrite)
  finally show ?case .
qed

lemma read_block_rows:
  assumes "buffer_fits s ib"
  shows "read_block s ib inp = (heap s)[block (data ib) := block_rows s inp]"
proof -
  obtain a where a: "data ib = Rows a 0"
    using assms by (cases "data ib") (simp add: buffer_fits_def)
  have inside: "a < length (heap s)"
    using assms a by (simp add: buffer_fits_def)
  have len: "length (heap s ! a) = m_channelCount s"
    and rows: "\<And>j. j < m_channelCount s \<Longrightarrow> length (heap s ! a ! j) = m_stepSize s"
    using assms a by (simp_all add: buffer_fits_def rows_fit_def list_all_length)
  have "map (\<lambda>j. if j < m_channelCount s
                  then map (\<lambda>i. if i < m_stepSize s then inp j i else heap s ! a ! j ! i)
                         [0..<length (heap s ! a ! j)]
                  else heap s ! a ! j) [0..<length (heap s ! a)] = block_rows s inp"
    unfolding block_rows_def len by (rule map_cong) (simp_all add: rows)
  then show ?thesis
    by (simp only: read_block_def write_samples [OF a inside] a smpl_pp.sel)
qed

subsection \<open>The forward search\<close>

lemma probe_positions_done: "\<not> i < bound \<Longrightarrow> probe_positions i incr bound = []"
  by (cases "incr = 0") (simp_all add: probe_positions_def)

lemma probe_count_step:
  assumes "0 < incr" "i < bound"
  shows "(bound - i + incr - 1) div incr = Suc ((bound - (i + incr) + incr - 1) div incr)"
proof -
  define r where "r = bound - (i + incr) + incr - 1"
  show ?thesis
  proof (cases "incr \<le> bound - i")
    case True
    with assms have "bound - i + incr - 1 = r + incr"
      unfolding r_def by arith
    then have "(bound - i + incr - 1) div incr = (r + incr) div incr"
      by (simp only:)
    also have "\<dots> = Suc (r div incr)"
      using assms(1) div_add_self2 [of incr r] by simp
    finally show ?thesis
      unfolding r_def .
  next
    case False
    with assms have r: "r = incr - 1"
      unfolding r_def by arith
    from False assms have "incr * 1 \<le> bound - i + incr - 1" and "bound - i + incr - 1 < incr * Suc 1"
      by simp_all
    then have "(bound - i + incr - 1) div incr = 1"
      by (rule div_nat_eqI)
    moreover have "r div incr = 0"
      using assms(1) by (simp add: r)
    ultimately show ?thesis
      unfolding r_def by simp
  qed
qed

lemma probe_positions_step:
  assumes "0 < incr" "i < bound"
  shows "probe_positions i incr bound = i # probe_positions (i + incr) incr bound"
proof -
  have "map (\<lambda>k. i + k * incr) [0..<Suc n] = i # map (\<lambda>k. i + incr + k * incr) [0..<n]" for n
    by (simp add: upt_conv_Cons map_Suc_upt [symmetric] del: upt_Suc) 
  then show ?thesis
    by (simp only: probe_positions_def probe_count_step [OF assms])
qed

text \<open>For a step above 0 the positions are the multiples of the step below the bound.\<close>

lemma no_multiple_between:
  assumes "incr dvd i" "i < k" "k < i + incr"
  shows "\<not> incr dvd (k::nat)"
proof
  assume "incr dvd k"
  with assms(1) have "incr dvd k - i"
    by simp
  moreover from assms(2,3) have "0 < k - i" "k - i < incr"
    by simp_all
  ultimately show False
    by (simp add: dvd_imp_le leD)
qed

lemma probe_positions_multiples:
  assumes "0 < incr" "incr dvd i"
  shows "probe_positions i incr bound = filter (\<lambda>k. incr dvd k) [i..<bound]"
  using assms(2)
proof (induction "bound - i" arbitrary: i rule: less_induct)
  case less
  show ?case
  proof (cases "i < bound")
    case False
    then show ?thesis
      by (simp add: probe_positions_done)
  next
    case True
    have next_dvd: "incr dvd i + incr"
      using less.prems by simp
    have smaller: "bound - (i + incr) < bound - i"
      using True assms(1) by simp
    have gap: "filter (\<lambda>k. incr dvd k) [Suc i..<bound] = filter (\<lambda>k. incr dvd k) [i + incr..<bound]"
    proof (cases "i + incr \<le> bound")
      case True
      have "filter (\<lambda>k. incr dvd k) [Suc i..<i + incr] = []"
        using no_multiple_between [OF less.prems] by (auto simp: filter_empty_conv)
      moreover have "[Suc i..<bound] = [Suc i..<i + incr] @ [i + incr..<bound]"
        using True assms(1) upt_add_eq_append [of "Suc i" "i + incr" "bound - (i + incr)"]
        by simp
      ultimately show ?thesis
        by simp
    next
      case False
      then have "filter (\<lambda>k. incr dvd k) [Suc i..<bound] = []"
        using no_multiple_between [OF less.prems] by (auto simp: filter_empty_conv)
      with False show ?thesis
        by simp
    qed
    have "probe_positions i incr bound = i # probe_positions (i + incr) incr bound"
      using assms(1) True by (rule probe_positions_step)
    also have "\<dots> = i # filter (\<lambda>k. incr dvd k) [i + incr..<bound]"
      using less.hyps [OF smaller next_dvd] by simp
    also have "\<dots> = filter (\<lambda>k. incr dvd k) [i..<bound]"
      using True less.prems gap by (simp add: upt_conv_Cons)
    finally show ?thesis .
  qed
qed

lemma forward_search_found:
  assumes "0 < incr"
  shows "forward_search ext s ib silent incr i =
         Some (first_at (\<lambda>i. silent = aubio_silence_detection ext (heap s)
                                        (forward_window s ib incr i) (m_threshold s))
                 int (probe_positions i incr (m_stepSize s - incr * 4)))"
proof -
  define hit where
    "hit = (\<lambda>i. silent = aubio_silence_detection ext (heap s) (forward_window s ib incr i)
                            (m_threshold s))"
  define bound where "bound = m_stepSize s - incr * 4"
  have unfold: "forward_search ext s ib silent incr i =
      (if i < bound then if hit i then Some (int i) else forward_search ext s ib silent incr (i + incr)
       else Some 0)" for i
    unfolding hit_def bound_def by (rule forward_search.simps)
  have "forward_search ext s ib silent incr i = Some (first_at hit int (probe_positions i incr bound))"
  proof (induction "bound - i" arbitrary: i rule: less_induct)
    case less
    show ?case
    proof (cases "i < bound")
      case False
      then show ?thesis
        by (simp add: unfold [of i] probe_positions_done)
    next
      case True
      then have "bound - (i + incr) < bound - i"
        using assms by simp
      from less [OF this] True show ?thesis
        by (simp add: unfold [of i] probe_positions_step [OF assms True])
    qed
  qed
  then show ?thesis
    by (simp only: hit_def bound_def)
qed

lemma forward_search_stuck:
  assumes "i < m_stepSize s"
    and "silent \<noteq> aubio_silence_detection ext (heap s) (forward_window s ib 0 i) (m_threshold s)"
  shows "forward_search ext s ib silent 0 i = None"
proof (cases "forward_search ext s ib silent 0 i")
  case None
  then show ?thesis .
next
  case (Some y)
  let ?stuck = "\<lambda>ext s ib silent incr i. incr = 0 \<and> i < m_stepSize s \<and>
     silent \<noteq> aubio_silence_detection ext (heap s) (forward_window s ib incr i) (m_threshold s)"
  have "\<not> ?stuck ext s ib silent 0 i"
  proof (rule forward_search.raw_induct
           [where P = "\<lambda>ext s ib silent incr i y. \<not> ?stuck ext s ib silent incr i", OF _ Some])
    fix f :: "('c, 'a) extern \<Rightarrow> 'a Silence \<Rightarrow> fvec_t \<Rightarrow> bool \<Rightarrow> nat \<Rightarrow> nat \<Rightarrow> int option"
      and ext s ib silent incr i y
    assume IH: "\<And>ext s ib silent incr i y. f ext s ib silent incr i = Some y \<Longrightarrow>
                  \<not> ?stuck ext s ib silent incr i"
      and eq: "(if i < m_stepSize s - incr * 4
                then if silent = aubio_silence_detection ext (heap s) (forward_window s ib incr i)
                                   (m_threshold s)
                     then Some (int i) else f ext s ib silent incr (i + incr)
                else Some 0) = Some y"
    show "\<not> ?stuck ext s ib silent incr i"
    proof
      assume stuck: "?stuck ext s ib silent incr i"
      with eq have "f ext s ib silent incr i = Some y"
        by simp
      from IH [OF this] stuck show False
        by blast
    qed
  qed
  with assms show ?thesis
    by blast
qed

subsection \<open>The backward search, and both searches as total functions\<close>

lemma backward_search_found:
  assumes "0 < incr"
  shows "backward_search ext s pb incr i =
         Some (first_at (\<lambda>i. \<not> aubio_silence_detection ext (heap s)
                                   (backward_window s pb incr i) (m_threshold s))
                 (\<lambda>i. - int i) (probe_positions i incr (m_stepSize s - incr)))"
proof -
  define loud where
    "loud = (\<lambda>i. \<not> aubio_silence_detection ext (heap s) (backward_window s pb incr i)
                       (m_threshold s))"
  define bound where "bound = m_stepSize s - incr"
  have unfold: "backward_search ext s pb incr i =
      (if i < bound then if loud i then Some (- int i) else backward_search ext s pb incr (i + incr)
       else Some 0)" for i
    unfolding loud_def bound_def by (rule backward_search.simps)
  have "backward_search ext s pb incr i =
        Some (first_at loud (\<lambda>i. - int i) (probe_positions i incr bound))"
  proof (induction "bound - i" arbitrary: i rule: less_induct)
    case less
    show ?case
    proof (cases "i < bound")
      case False
      then show ?thesis
        by (simp add: unfold [of i] probe_positions_done)
    next
      case True
      then have "bound - (i + incr) < bound - i"
        using assms by simp
      from less [OF this] True show ?thesis
        by (simp add: unfold [of i] probe_positions_step [OF assms True])
    qed
  qed
  then show ?thesis
    by (simp only: loud_def bound_def)
qed

lemma backward_search_stuck:
  assumes "i < m_stepSize s"
    and "aubio_silence_detection ext (heap s) (backward_window s pb 0 i) (m_threshold s)"
  shows "backward_search ext s pb 0 i = None"
proof (cases "backward_search ext s pb 0 i")
  case None
  then show ?thesis .
next
  case (Some y)
  let ?stuck = "\<lambda>ext s pb incr i. incr = 0 \<and> i < m_stepSize s \<and>
     aubio_silence_detection ext (heap s) (backward_window s pb incr i) (m_threshold s)"
  have "\<not> ?stuck ext s pb 0 i"
  proof (rule backward_search.raw_induct
           [where P = "\<lambda>ext s pb incr i y. \<not> ?stuck ext s pb incr i", OF _ Some])
    fix f :: "('c, 'a) extern \<Rightarrow> 'a Silence \<Rightarrow> fvec_t \<Rightarrow> nat \<Rightarrow> nat \<Rightarrow> int option"
      and ext s pb incr i y
    assume IH: "\<And>ext s pb incr i y. f ext s pb incr i = Some y \<Longrightarrow> \<not> ?stuck ext s pb incr i"
      and eq: "(if i < m_stepSize s - incr
                then if \<not> aubio_silence_detection ext (heap s) (backward_window s pb incr i)
                            (m_threshold s)
                     then Some (- int i) else f ext s pb incr (i + incr)
                else Some 0) = Some y"
    show "\<not> ?stuck ext s pb incr i"
    proof
      assume stuck: "?stuck ext s pb incr i"
      then have "incr = 0" and "i < m_stepSize s - incr"
        and "aubio_silence_detection ext (heap s) (backward_window s pb incr i) (m_threshold s)"
        by auto
      with eq have "f ext s pb incr i = Some y"
        by simp
      from IH [OF this] stuck show False
        by blast
    qed
  qed
  with assms show ?thesis
    by blast
qed

lemma forward_search_empty: "m_stepSize s = 0 \<Longrightarrow> forward_search ext s ib silent incr i = Some 0"
  by (subst forward_search.simps) simp

lemma backward_search_empty: "m_stepSize s = 0 \<Longrightarrow> backward_search ext s pb incr i = Some 0"
  by (subst backward_search.simps) simp

lemma forward_search_hit_at_start:
  assumes "0 < m_stepSize s - incr * 4"
    and "silent = aubio_silence_detection ext (heap s) (forward_window s ib incr 0) (m_threshold s)"
  shows "forward_search ext s ib silent incr 0 = Some 0"
  using assms by (subst forward_search.simps) simp

lemma refine_returns:
  assumes "m_stepSize s = 0 \<or> 8 \<le> m_stepSize s"
  shows "\<exists>off. refine ext s ib pb silent = Some off"
proof (cases "m_stepSize s = 0")
  case True
  then show ?thesis
    by (simp add: refine_def Let_def forward_search_empty backward_search_empty)
next
  case False
  with assms have "0 < incr_of (m_stepSize s)"
    using incr_of_zero_iff [of "m_stepSize s"] by simp
  then show ?thesis
    by (simp add: refine_def Let_def forward_search_found backward_search_found)
qed


lemma forward_search_run [code]:
  "forward_search ext s ib silent incr i =
     (if incr = 0 then
        (if i < m_stepSize s then
           (if silent = aubio_silence_detection ext (heap s) (forward_window s ib 0 i)
                          (m_threshold s)
            then Some (int i) else None)
         else Some 0)
      else Some (first_at (\<lambda>i. silent = aubio_silence_detection ext (heap s)
                                          (forward_window s ib incr i) (m_threshold s))
                   int (probe_positions i incr (m_stepSize s - incr * 4))))"
proof (cases "incr = 0")
  case False
  then show ?thesis
    by (simp add: forward_search_found)
next
  case True
  show ?thesis
  proof (cases "i < m_stepSize s \<and>
      silent \<noteq> aubio_silence_detection ext (heap s) (forward_window s ib 0 i) (m_threshold s)")
    case True
    then show ?thesis
      using \<open>incr = 0\<close> by (simp add: forward_search_stuck)
  next
    case False
    then show ?thesis
      using \<open>incr = 0\<close> by (subst forward_search.simps) auto
  qed
qed

lemma backward_search_run [code]:
  "backward_search ext s pb incr i =
     (if incr = 0 then
        (if i < m_stepSize s then
           (if \<not> aubio_silence_detection ext (heap s) (backward_window s pb 0 i)
                    (m_threshold s)
            then Some (- int i) else None)
         else Some 0)
      else Some (first_at (\<lambda>i. \<not> aubio_silence_detection ext (heap s)
                                     (backward_window s pb incr i) (m_threshold s))
                   (\<lambda>i. - int i) (probe_positions i incr (m_stepSize s - incr))))"
proof (cases "incr = 0")
  case False
  then show ?thesis
    by (simp add: backward_search_found)
next
  case True
  show ?thesis
  proof (cases "i < m_stepSize s \<and>
      aubio_silence_detection ext (heap s) (backward_window s pb 0 i) (m_threshold s)")
    case True
    then show ?thesis
      using \<open>incr = 0\<close> by (simp add: backward_search_stuck)
  next
    case False
    then show ?thesis
      using \<open>incr = 0\<close> by (subst backward_search.simps) auto
  qed
qed

subsection \<open>One call of \<open>initialise\<close> and of \<open>process\<close>\<close>

lemma uint_t_mod: "uint_t n = n mod 2 ^ 32"
proof -
  have "nat (int n mod 2 ^ 32) = nat (int n) mod nat (2 ^ 32)"
    by (rule nat_mod_distrib) simp_all
  then show ?thesis
    by (simp add: uint_t_def nat_power_eq)
qed

lemma uint_t_small: "n < 2 ^ 32 \<Longrightarrow> uint_t n = n"
  by (simp add: uint_t_mod)

lemma uint_t_window: "uint_t (incr_of n * 4) = 4 * incr_of n"
proof -
  have "incr_of n * 4 \<le> 64"
    by (simp add: incr_of_min)
  then have "incr_of n * 4 < 2 ^ 32"
    by simp
  then show ?thesis
    by (simp add: uint_t_small)
qed

lemma initialise_result:
  "initialise chans n b s =
     (True, s\<lparr> m_channelCount := chans, m_stepSize := n, m_blockSize := b,
              heap := heap s @ [replicate (uint_t chans) (replicate (uint_t n) 0),
                                replicate (uint_t chans) (replicate (uint_t n) 0)],
              m_ibuf := Some \<lparr> length_t = uint_t n, channels = uint_t chans,
                                data = Rows (length (heap s)) 0 \<rparr>,
              m_pbuf := Some \<lparr> length_t = uint_t n, channels = uint_t chans,
                                data = Rows (Suc (length (heap s))) 0 \<rparr>,
              m_tmpptrs := Some chans \<rparr>)"
  by (simp add: initialise_def new_fvec_def Let_def)

lemma initialise_initialised:
  "chans < 2 ^ 32 \<Longrightarrow> n < 2 ^ 32 \<Longrightarrow> initialised (snd (initialise chans n b s))"
  by (simp add: initialise_result uint_t_small initialised_def buffer_fits_def rows_fit_def nth_append
      list_all_length)

text \<open>
  A step size of \<open>2 ^ 32 + 8\<close> gives buffers of 8 samples, as the 32-bit parameter of
  \<^verbatim>\<open>new_fvec\<close> does, and an object whose buffers do not fit its step size.
\<close>

lemma initialise_wraps:
  "m_ibuf (snd (initialise 1 (2 ^ 32 + 8) b s)) =
     Some \<lparr> length_t = 8, channels = 1, data = Rows (length (heap s)) 0 \<rparr> \<and>
   m_stepSize (snd (initialise 1 (2 ^ 32 + 8) b s)) = 2 ^ 32 + 8 \<and>
   \<not> initialised (snd (initialise 1 (2 ^ 32 + 8) b s))"
  by (simp add: initialise_result uint_t_def initialised_def buffer_fits_def)

text \<open>Before \<open>initialise\<close> both buffer pointers are null.\<close>

lemma process_uninitialised: "process ext inp t (Silence rate junk) = Some (Inl NullPointer)"
  by (simp add: process_def Silence_def)

lemma process_unfold:
  assumes "m_ibuf s = Some ib" "m_pbuf s = Some pb"
  shows "process ext inp t s =
     (if m_first s \<or> m_prevSilent s \<noteq> block_silent ext inp s then
        (if (block_silent ext inp s \<and> \<not> m_first s) \<or> \<not> block_silent ext inp s then
           (case refine ext (loaded s inp) ib pb (block_silent ext inp s) of
              None \<Rightarrow> None
            | Some off \<Rightarrow>
                Some (Inr (emit (block_silent ext inp s)
                             (rt_plus ext t (frame2RealTime ext off (lrintf ext (m_inputSampleRate s)))),
                           swap_data ib pb
                             ((loaded s inp)\<lparr> m_prevSilent := block_silent ext inp s, m_first := False \<rparr>))))
         else Some (Inr (emit (block_silent ext inp s) t,
                         swap_data ib pb
                           ((loaded s inp)\<lparr> m_prevSilent := block_silent ext inp s, m_first := False \<rparr>))))
      else Some (Inr (Map.empty, swap_data ib pb (loaded s inp))))"
  using assms
  by (auto simp: process_def block_silent_def loaded_def Let_def split: option.splits)


lemma loaded_heap:
  assumes "m_ibuf s = Some ib" "buffer_fits s ib"
  shows "loaded s inp = s\<lparr> heap := (heap s)[block (data ib) := block_rows s inp] \<rparr>"
  using assms by (simp add: loaded_def read_block_rows)

lemma block_rows_fit: "rows_fit s (block_rows s inp)"
  by (simp add: rows_fit_def block_rows_def list_all_length)

lemma emit_slots:
  "slots (emit silent stamp) =
     (if silent
      then ([\<lparr> hasTimestamp = True, timestamp = stamp, values_f = [] \<rparr>], [],
            [\<lparr> hasTimestamp = True, timestamp = stamp, values_f = [0] \<rparr>])
      else ([], [\<lparr> hasTimestamp = True, timestamp = stamp, values_f = [] \<rparr>],
            [\<lparr> hasTimestamp = True, timestamp = stamp, values_f = [1] \<rparr>]))"
  by (simp add: emit_def slots_def push_back_def Let_def)

lemma emit_dom: "dom (emit silent stamp) = (if silent then {0, 2} else {1, 2})"
  by (auto simp: emit_def push_back_def Let_def)

lemma emit_stamps: "stamps (emit silent stamp) = [stamp, stamp]"
  by (simp add: stamps_def emit_slots)

lemma process_state:
  assumes "initialised s" "m_ibuf s = Some ib" "m_pbuf s = Some pb"
    and "process ext inp t s = Some (Inr (fs, s'))"
  shows "m_pbuf s' = Some (pb\<lparr> data := data ib \<rparr>)"
    and "m_ibuf s' = Some (ib\<lparr> data := data pb \<rparr>)"
    and "heap s' = (heap s)[block (data ib) := block_rows s inp]"
    and "m_stepSize s' = m_stepSize s" and "m_channelCount s' = m_channelCount s"
proof -
  from assms(1-3) have fit: "buffer_fits s ib"
    by (simp add: initialised_def)
  note ld = loaded_heap [OF assms(2) fit]
  from assms(4) show "m_pbuf s' = Some (pb\<lparr> data := data ib \<rparr>)"
    and "m_ibuf s' = Some (ib\<lparr> data := data pb \<rparr>)"
    and "heap s' = (heap s)[block (data ib) := block_rows s inp]"
    and "m_stepSize s' = m_stepSize s" and "m_channelCount s' = m_channelCount s"
    by (auto simp: process_unfold [OF assms(2,3)] ld swap_data_def Let_def
        split: if_splits option.splits)
qed

lemma process_initialised:
  assumes "initialised s" "process ext inp t s = Some (Inr (fs, s'))"
  shows "initialised s'"
proof -
  from assms(1) obtain ib pb where bufs: "m_ibuf s = Some ib" "m_pbuf s = Some pb"
    by (auto simp: initialised_def split: option.splits)
  with assms(1) have fit: "buffer_fits s ib" "buffer_fits s pb"
    and apart: "block (data ib) \<noteq> block (data pb)"
    by (simp_all add: initialised_def)
  note st = process_state [OF assms(1) bufs assms(2)]
  have "buffer_fits s' (ib\<lparr> data := data pb \<rparr>)"
    using fit apart st(3-5) by (simp add: buffer_fits_def rows_fit_def)
  moreover have "buffer_fits s' (pb\<lparr> data := data ib \<rparr>)"
    using fit apart st(3-5) block_rows_fit [of s inp]
    by (simp add: buffer_fits_def rows_fit_def)
  ultimately show ?thesis
    using apart st(1,2) by (simp add: initialised_def)
qed

lemma process_returns:
  assumes "initialised s" "m_stepSize s = 0 \<or> 8 \<le> m_stepSize s"
  shows "\<exists>fs s'. process ext inp t s = Some (Inr (fs, s'))"
proof -
  from assms(1) obtain ib pb where bufs: "m_ibuf s = Some ib" "m_pbuf s = Some pb"
    by (auto simp: initialised_def split: option.splits)
  have "m_stepSize (loaded s inp) = m_stepSize s"
    by (simp add: loaded_def split: option.splits)
  with assms(2) obtain off where "refine ext (loaded s inp) ib pb (block_silent ext inp s) = Some off"
    using refine_returns [of "loaded s inp" ext ib pb "block_silent ext inp s"] by auto
  then show ?thesis
    by (cases "block_silent ext inp s") (simp_all add: process_unfold [OF bufs])
qed

subsection \<open>Parameters\<close>

text \<open>
  C10. \<open>setParameter\<close> with a name other than \<^verbatim>\<open>silencethreshold\<close> returns the object as
  it was and \<open>getParameter\<close> with such a name returns \<open>0\<close>. \<open>setParameter\<close> with
  \<^verbatim>\<open>silencethreshold\<close> replaces the threshold by the given value, whatever the value, and
  changes nothing else; \<open>getParameter\<close> reads that value back.
\<close>

theorem parameter_access:
  "(param \<noteq> ''silencethreshold'' \<longrightarrow>
      setParameter param v s = s \<and> getParameter param s = 0) \<and>
   setParameter ''silencethreshold'' v s = s\<lparr> m_threshold := v \<rparr> \<and>
   getParameter ''silencethreshold'' (setParameter ''silencethreshold'' v s) = v"
  by (simp add: setParameter_def getParameter_def)

theorem parameter_access_witness:
  "''gain'' \<noteq> ''silencethreshold'' \<and>
   setParameter ''gain'' 5 (Silence (44100::int) (0, 0, 0)) = Silence 44100 (0, 0, 0) \<and>
   getParameter ''gain'' (Silence (44100::int) (0, 0, 0)) = 0 \<and>
   m_threshold (setParameter ''silencethreshold'' 25 (Silence (44100::int) (0, 0, 0))) = 25"
  using parameter_access [of "''gain''" 5 "Silence (44100::int) (0, 0, 0)"]
        parameter_access [of "''silencethreshold''" 25 "Silence (44100::int) (0, 0, 0)"]
  by simp


subsection \<open>Blocks that change nothing\<close>

text \<open>
  C9. In an initialised object that has processed a block before, a block whose class
  equals the recorded class of the block before makes \<open>process\<close> return the empty feature
  set.
\<close>

theorem no_change_no_events:
  assumes "initialised s" "\<not> m_first s" "block_silent ext inp s = m_prevSilent s"
  shows "\<exists>s'. process ext inp t s = Some (Inr (Map.empty, s'))"
proof -
  from assms(1) obtain ib pb where "m_ibuf s = Some ib" "m_pbuf s = Some pb"
    by (auto simp: initialised_def split: option.splits)
  then show ?thesis
    using assms(2,3) by (simp add: process_unfold)
qed

theorem no_change_no_events_witness:
  "initialised (state_after frames 44100 [Initialise 1 8 8, Process loud_block 0]) \<and>
   \<not> m_first (state_after frames 44100 [Initialise 1 8 8, Process loud_block 0]) \<and>
   block_silent frames late_block (state_after frames 44100 [Initialise 1 8 8, Process loud_block 0]) =
     m_prevSilent (state_after frames 44100 [Initialise 1 8 8, Process loud_block 0]) \<and>
   (\<exists>s'. process frames late_block 8 (state_after frames 44100 [Initialise 1 8 8, Process loud_block 0]) =
      Some (Inr (Map.empty, s')))"
proof -
  let ?s = "state_after frames 44100 [Initialise 1 8 8, Process loud_block 0]"
  have a: "initialised ?s" by code_simp
  have b: "\<not> m_first ?s" by code_simp
  have c: "block_silent frames late_block ?s = m_prevSilent ?s" by code_simp
  from a b c no_change_no_events [OF a b c, of 8] show ?thesis
    by blast
qed

subsection \<open>The block kept for the next call\<close>

text \<open>
  C8. A call of \<open>process\<close> on an initialised object either does not return, which can
  happen for step sizes 1 to 7 only, or returns with the two buffers' \<^verbatim>\<open>data\<close> pointers
  exchanged: \<^verbatim>\<open>m_pbuf\<close> now points to the storage \<^verbatim>\<open>m_ibuf\<close> pointed to, that storage
  holds exactly the samples of the block just processed, \<^verbatim>\<open>m_ibuf\<close> points to the storage
  \<^verbatim>\<open>m_pbuf\<close> pointed to, and no other block of storage has changed. This holds whether
  or not a change was detected.
\<close>

theorem previous_block_retained:
  assumes "initialised s" "m_ibuf s = Some ib" "m_pbuf s = Some pb"
  shows "case process ext inp t s of
           None \<Rightarrow> 0 < m_stepSize s \<and> m_stepSize s < 8
         | Some (Inl e) \<Rightarrow> False
         | Some (Inr (fs, s')) \<Rightarrow>
             m_pbuf s' = Some (pb\<lparr> data := data ib \<rparr>) \<and>
             m_ibuf s' = Some (ib\<lparr> data := data pb \<rparr>) \<and>
             heap s' = (heap s)[block (data ib) := block_rows s inp] \<and>
             heap s' ! block (data ib) = block_rows s inp \<and>
             initialised s'"
proof (cases "process ext inp t s")
  case None
  have "\<not> (m_stepSize s = 0 \<or> 8 \<le> m_stepSize s)"
  proof
    assume "m_stepSize s = 0 \<or> 8 \<le> m_stepSize s"
    from process_returns [OF assms(1) this, of ext inp t] None show False
      by simp
  qed
  with None show ?thesis
    by simp
next
  case (Some r)
  show ?thesis
  proof (cases r)
    case (Inl e)
    with Some show ?thesis
      by (simp add: process_unfold [OF assms(2,3)] split: if_splits option.splits)
  next
    case (Inr p)
    obtain fs s' where p: "p = (fs, s')"
      by (cases p)
    with Some Inr have run: "process ext inp t s = Some (Inr (fs, s'))"
      by simp
    from assms(1,2) have "block (data ib) < length (heap s)"
      by (simp add: initialised_def buffer_fits_def split: option.splits)
    then show ?thesis
      using process_state [OF assms run] process_initialised [OF assms(1) run] run by simp
  qed
qed

theorem previous_block_retained_witness:
  "initialised (state_after frames 44100 [Initialise 1 8 8, Process loud_block 0]) \<and>
   m_ibuf (state_after frames 44100 [Initialise 1 8 8, Process loud_block 0]) =
     Some \<lparr> length_t = 8, channels = 1, data = Rows 1 0 \<rparr> \<and>
   m_pbuf (state_after frames 44100 [Initialise 1 8 8, Process loud_block 0]) =
     Some \<lparr> length_t = 8, channels = 1, data = Rows 0 0 \<rparr> \<and>
   (\<exists>fs s'. process frames late_block 8
               (state_after frames 44100 [Initialise 1 8 8, Process loud_block 0]) =
               Some (Inr (fs, s')) \<and>
            m_pbuf s' = Some \<lparr> length_t = 8, channels = 1, data = Rows 1 0 \<rparr> \<and>
            m_ibuf s' = Some \<lparr> length_t = 8, channels = 1, data = Rows 0 0 \<rparr> \<and>
            heap s' = [[[50, 50, 50, 50, 50, 50, 50, 50]], [[0, 0, 0, 0, 0, 50, 50, 50]]])"
proof -
  let ?s = "state_after frames 44100 [Initialise 1 8 8, Process loud_block 0]"
  let ?ib = "\<lparr> length_t = 8, channels = 1, data = Rows 1 0 \<rparr>"
  let ?pb = "\<lparr> length_t = 8, channels = 1, data = Rows 0 0 \<rparr>"
  have a: "initialised ?s" by code_simp
  have b: "m_ibuf ?s = Some ?ib" by code_simp
  have c: "m_pbuf ?s = Some ?pb" by code_simp
  have d: "(heap ?s)[block (data ?ib) := block_rows ?s late_block] =
           [[[50, 50, 50, 50, 50, 50, 50, 50]], [[0, 0, 0, 0, 0, 50, 50, 50]]]"
    by code_simp
  have e: "m_stepSize ?s = 8" by code_simp
  obtain fs s' where run: "process frames late_block 8 ?s = Some (Inr (fs, s'))"
    using process_returns [OF a, of frames late_block 8] e by auto
  with previous_block_retained [OF a b c, where ext = frames and inp = late_block and t = 8] d
  have "m_pbuf s' = Some \<lparr> length_t = 8, channels = 1, data = Rows 1 0 \<rparr> \<and>
        m_ibuf s' = Some \<lparr> length_t = 8, channels = 1, data = Rows 0 0 \<rparr> \<and>
        heap s' = [[[50, 50, 50, 50, 50, 50, 50, 50]], [[0, 0, 0, 0, 0, 50, 50, 50]]]"
    by simp
  with a b c run show ?thesis
    by blast
qed

subsection \<open>When the offset is refined\<close>

text \<open>
  C6. On a first call or a detected change, the offset is refined unless the call is the
  first one and the block is silent. When it is refined, the features carry the block's
  time stamp plus \<^verbatim>\<open>frame2RealTime(off, rate)\<close> for the offset found (and the call does not
  return when the search does not); when it is skipped they carry the block's time stamp
  and the outcome does not depend on the search. All features of a call carry the same
  time stamp.
\<close>

theorem refinement_gate:
  assumes "m_ibuf s = Some ib" "m_pbuf s = Some pb"
    and "m_first s \<or> m_prevSilent s \<noteq> block_silent ext inp s"
  shows "process ext inp t s =
     (if m_first s \<and> block_silent ext inp s
      then Some (Inr (emit True t,
                      swap_data ib pb ((loaded s inp)\<lparr> m_prevSilent := True, m_first := False \<rparr>)))
      else case refine ext (loaded s inp) ib pb (block_silent ext inp s) of
             None \<Rightarrow> None
           | Some off \<Rightarrow>
               Some (Inr (emit (block_silent ext inp s)
                            (rt_plus ext t
                               (frame2RealTime ext off (lrintf ext (m_inputSampleRate s)))),
                          swap_data ib pb
                            ((loaded s inp)\<lparr> m_prevSilent := block_silent ext inp s,
                                             m_first := False \<rparr>)))) \<and>
     stamps (emit silent stamp :: ('t, 'a::zero_neq_one) FeatureSet) = [stamp, stamp]"
proof (cases "block_silent ext inp s")
  case True
  with assms(3) show ?thesis
    by (auto simp: process_unfold [OF assms(1,2)] emit_stamps)
next
  case False
  with assms(3) show ?thesis
    by (auto simp: process_unfold [OF assms(1,2)] emit_stamps)
qed

theorem refinement_gate_witness:
  "m_ibuf (state_after frames 44100 [Initialise 1 8 8]) =
     Some \<lparr> length_t = 8, channels = 1, data = Rows 0 0 \<rparr> \<and>
   m_pbuf (state_after frames 44100 [Initialise 1 8 8]) =
     Some \<lparr> length_t = 8, channels = 1, data = Rows 1 0 \<rparr> \<and>
   m_first (state_after frames 44100 [Initialise 1 8 8]) \<and>
   block_silent frames quiet_block (state_after frames 44100 [Initialise 1 8 8]) \<and>
   \<not> block_silent frames late_block (state_after frames 44100 [Initialise 1 8 8]) \<and>
   refine frames (loaded (state_after frames 44100 [Initialise 1 8 8]) late_block)
     \<lparr> length_t = 8, channels = 1, data = Rows 0 0 \<rparr>
     \<lparr> length_t = 8, channels = 1, data = Rows 1 0 \<rparr> False = Some 2 \<and>
   (\<exists>s'. process frames quiet_block 0 (state_after frames 44100 [Initialise 1 8 8]) =
            Some (Inr (emit True 0, s'))) \<and>
   (\<exists>s'. process frames late_block 0 (state_after frames 44100 [Initialise 1 8 8]) =
            Some (Inr (emit False 2, s')))"
proof -
  let ?s = "state_after frames 44100 [Initialise 1 8 8]"
  let ?ib = "\<lparr> length_t = 8, channels = 1, data = Rows 0 0 \<rparr>"
  let ?pb = "\<lparr> length_t = 8, channels = 1, data = Rows 1 0 \<rparr>"
  have a: "m_ibuf ?s = Some ?ib" by code_simp
  have b: "m_pbuf ?s = Some ?pb" by code_simp
  have c: "m_first ?s" by code_simp
  have d: "block_silent frames quiet_block ?s" by code_simp
  have e: "\<not> block_silent frames late_block ?s" by code_simp
  have f: "refine frames (loaded ?s late_block) ?ib ?pb False = Some 2" by code_simp
  have g: "rt_plus frames 0 (frame2RealTime frames 2 (lrintf frames (m_inputSampleRate ?s))) = 2"
    by (simp add: frames_def)
  from c have h: "m_first ?s \<or> m_prevSilent ?s \<noteq> block_silent frames quiet_block ?s"
    and i: "m_first ?s \<or> m_prevSilent ?s \<noteq> block_silent frames late_block ?s"
    by simp_all
  from refinement_gate [OF a b h, where t = 0, THEN conjunct1] c d
  have "\<exists>s'. process frames quiet_block 0 ?s = Some (Inr (emit True 0, s'))"
    by simp
  moreover from refinement_gate [OF a b i, where t = 0, THEN conjunct1] c e f g
  have "\<exists>s'. process frames late_block 0 ?s = Some (Inr (emit False 2, s'))"
    by simp
  ultimately show ?thesis
    using a b c d e f by blast
qed

subsection \<open>The first block\<close>

text \<open>
  C1, as stated, fails: the first block, here one that starts quiet and becomes loud,
  produces an end-of-silence instant next to the level sample, and both are stamped with
  the refined time 2, not with the block's start 0.
\<close>

theorem first_block_counterexample:
  "session frames 44100 [Initialise 1 8 8, Process late_block 0] =
     Some (Inr [([], [\<lparr> hasTimestamp = True, timestamp = 2, values_f = [] \<rparr>],
                 [\<lparr> hasTimestamp = True, timestamp = 2, values_f = [1] \<rparr>])])"
  by code_simp

text \<open>
  C1, amended. For the first block after construction or \<open>reset\<close>, a call of \<open>process\<close>
  that returns produces exactly one level sample and exactly one instant: a start of
  silence when the block is silent, an end of silence otherwise. Both carry the same time
  stamp. It is the block's start when the block is silent; when it is not, it is the start
  plus \<^verbatim>\<open>frame2RealTime(off, rate)\<close>, where \<open>off\<close> is the first probe position of the forward
  search whose window is not silent, and 0 when there is none. The call returns whenever
  the block is silent, the step size is 0 or at least 8, or the window at position 0,
  which is empty for the step sizes in between, is not silent.
\<close>

theorem first_block_events:
  assumes "initialised s" "m_ibuf s = Some ib" "m_first s"
  shows
    "(process ext inp t s = None) =
       (\<not> block_silent ext inp s \<and> 0 < m_stepSize s \<and> m_stepSize s < 8 \<and>
        aubio_silence_detection ext (heap (loaded s inp)) (forward_window (loaded s inp) ib 0 0)
          (m_threshold s)) \<and>
     (process ext inp t s = None \<or>
      (\<exists>fs s' stamp. process ext inp t s = Some (Inr (fs, s')) \<and>
         dom fs = (if block_silent ext inp s then {0, 2} else {1, 2}) \<and>
         slots fs =
           (if block_silent ext inp s
            then ([\<lparr> hasTimestamp = True, timestamp = stamp, values_f = [] \<rparr>], [],
                  [\<lparr> hasTimestamp = True, timestamp = stamp, values_f = [0] \<rparr>])
            else ([], [\<lparr> hasTimestamp = True, timestamp = stamp, values_f = [] \<rparr>],
                  [\<lparr> hasTimestamp = True, timestamp = stamp, values_f = [1] \<rparr>])) \<and>
         stamp =
           (if block_silent ext inp s then t
            else rt_plus ext t (frame2RealTime ext
                   (first_at (\<lambda>i. \<not> aubio_silence_detection ext (heap (loaded s inp))
                                      (forward_window (loaded s inp) ib (incr_of (m_stepSize s)) i)
                                      (m_threshold s))
                      int (probe_positions 0 (incr_of (m_stepSize s))
                             (m_stepSize s - incr_of (m_stepSize s) * 4)))
                   (lrintf ext (m_inputSampleRate s))))))"
proof -
  from assms(1,2) obtain pb where pb: "m_pbuf s = Some pb"
    by (auto simp: initialised_def split: option.splits)
  have same: "m_stepSize (loaded s inp) = m_stepSize s" "m_threshold (loaded s inp) = m_threshold s"
    by (simp_all add: loaded_def split: option.splits)
  show ?thesis
  proof (cases "block_silent ext inp s")
    case True
    with assms(3) show ?thesis
      by (simp add: process_unfold [OF assms(2) pb] emit_slots emit_dom)
  next
    case False
    define off where
      "off = first_at (\<lambda>i. \<not> aubio_silence_detection ext (heap (loaded s inp))
                              (forward_window (loaded s inp) ib (incr_of (m_stepSize s)) i)
                              (m_threshold s))
               int (probe_positions 0 (incr_of (m_stepSize s))
                      (m_stepSize s - incr_of (m_stepSize s) * 4))"
    define stuck where
      "stuck = (0 < m_stepSize s \<and> m_stepSize s < 8 \<and>
                aubio_silence_detection ext (heap (loaded s inp))
                  (forward_window (loaded s inp) ib 0 0) (m_threshold s))"
    have search: "forward_search ext (loaded s inp) ib False (incr_of (m_stepSize s)) 0 =
                  (if stuck then None else Some off)"
    proof (cases "incr_of (m_stepSize s) = 0")
      case True
      then have small: "m_stepSize s < 8"
        by (simp add: incr_of_zero_iff)
      have "off = 0"
        using True by (simp add: off_def probe_positions_def)
      with True small show ?thesis
        by (simp add: forward_search_run same stuck_def)
    next
      case False
      then have "\<not> m_stepSize s < 8"
        by (simp add: incr_of_zero_iff)
      with False show ?thesis
        by (simp add: forward_search_found same stuck_def off_def)
    qed
    then have "refine ext (loaded s inp) ib pb False = (if stuck then None else Some off)"
      by (simp add: refine_def Let_def same)
    with False assms(3) have run: "process ext inp t s =
        (if stuck then None
         else Some (Inr (emit False
                           (rt_plus ext t (frame2RealTime ext off (lrintf ext (m_inputSampleRate s)))),
                         swap_data ib pb ((loaded s inp)\<lparr> m_prevSilent := False, m_first := False \<rparr>))))"
      by (simp add: process_unfold [OF assms(2) pb])
    show ?thesis
    proof (cases stuck)
      case True
      with run have "process ext inp t s = None"
        by simp
      with True False show ?thesis
        by (simp add: stuck_def)
    next
      case no: False
      with run have "process ext inp t s =
          Some (Inr (emit False
                       (rt_plus ext t (frame2RealTime ext off (lrintf ext (m_inputSampleRate s)))),
                     swap_data ib pb ((loaded s inp)\<lparr> m_prevSilent := False, m_first := False \<rparr>)))"
        by simp
      moreover from no have "\<not> (0 < m_stepSize s \<and> m_stepSize s < 8 \<and>
                aubio_silence_detection ext (heap (loaded s inp))
                  (forward_window (loaded s inp) ib 0 0) (m_threshold s))"
        by (simp add: stuck_def)
      ultimately show ?thesis
        using False by (simp add: emit_slots emit_dom off_def)
    qed
  qed
qed

theorem first_block_events_witness:
  "initialised (state_after frames 44100 [Initialise 1 8 8]) \<and>
   m_ibuf (state_after frames 44100 [Initialise 1 8 8]) =
     Some \<lparr> length_t = 8, channels = 1, data = Rows 0 0 \<rparr> \<and>
   m_first (state_after frames 44100 [Initialise 1 8 8]) \<and>
   \<not> block_silent frames late_block (state_after frames 44100 [Initialise 1 8 8]) \<and>
   (\<exists>fs s'. process frames late_block 0 (state_after frames 44100 [Initialise 1 8 8]) =
              Some (Inr (fs, s')) \<and>
            slots fs = ([], [\<lparr> hasTimestamp = True, timestamp = 2, values_f = [] \<rparr>],
                        [\<lparr> hasTimestamp = True, timestamp = 2, values_f = [1] \<rparr>])) \<and>
   initialised (state_after frames 44100 [Initialise 1 4 4]) \<and>
   m_ibuf (state_after frames 44100 [Initialise 1 4 4]) =
     Some \<lparr> length_t = 4, channels = 1, data = Rows 0 0 \<rparr> \<and>
   m_first (state_after frames 44100 [Initialise 1 4 4]) \<and>
   \<not> block_silent frames loud_block (state_after frames 44100 [Initialise 1 4 4]) \<and>
   (\<exists>fs s'. process frames loud_block 0 (state_after frames 44100 [Initialise 1 4 4]) =
              Some (Inr (fs, s')) \<and>
            slots fs = ([], [\<lparr> hasTimestamp = True, timestamp = 0, values_f = [] \<rparr>],
                        [\<lparr> hasTimestamp = True, timestamp = 0, values_f = [1] \<rparr>]))"
proof -
  let ?s = "state_after frames 44100 [Initialise 1 8 8]"
  let ?ib = "\<lparr> length_t = 8, channels = 1, data = Rows 0 0 \<rparr>"
  have a: "initialised ?s" by code_simp
  have b: "m_ibuf ?s = Some ?ib" by code_simp
  have c: "m_first ?s" by code_simp
  have d: "\<not> block_silent frames late_block ?s" by code_simp
  have e: "\<not> m_stepSize ?s < 8" by code_simp
  have g: "rt_plus frames 0 (frame2RealTime frames
             (first_at (\<lambda>i. \<not> aubio_silence_detection frames (heap (loaded ?s late_block))
                                (forward_window (loaded ?s late_block) ?ib (incr_of (m_stepSize ?s)) i)
                                (m_threshold ?s))
                int (probe_positions 0 (incr_of (m_stepSize ?s))
                       (m_stepSize ?s - incr_of (m_stepSize ?s) * 4)))
             (lrintf frames (m_inputSampleRate ?s))) = 2"
    by code_simp
  from first_block_events [OF a b c, where ext = frames and inp = late_block and t = 0] d e g
  have first: "\<exists>fs s'. process frames late_block 0 ?s = Some (Inr (fs, s')) \<and>
          slots fs = ([], [\<lparr> hasTimestamp = True, timestamp = 2, values_f = [] \<rparr>],
                      [\<lparr> hasTimestamp = True, timestamp = 2, values_f = [1] \<rparr>])"
    by auto
  let ?s' = "state_after frames 44100 [Initialise 1 4 4]"
  let ?ib' = "\<lparr> length_t = 4, channels = 1, data = Rows 0 0 \<rparr>"
  have a': "initialised ?s'" by code_simp
  have b': "m_ibuf ?s' = Some ?ib'" by code_simp
  have c': "m_first ?s'" by code_simp
  have d': "\<not> block_silent frames loud_block ?s'" by code_simp
  have e': "\<not> aubio_silence_detection frames (heap (loaded ?s' loud_block))
                (forward_window (loaded ?s' loud_block) ?ib' 0 0) (m_threshold ?s')"
    by code_simp
  have g': "rt_plus frames 0 (frame2RealTime frames
             (first_at (\<lambda>i. \<not> aubio_silence_detection frames (heap (loaded ?s' loud_block))
                                (forward_window (loaded ?s' loud_block) ?ib' (incr_of (m_stepSize ?s')) i)
                                (m_threshold ?s'))
                int (probe_positions 0 (incr_of (m_stepSize ?s'))
                       (m_stepSize ?s' - incr_of (m_stepSize ?s') * 4)))
             (lrintf frames (m_inputSampleRate ?s'))) = 0"
    by code_simp
  from first_block_events [OF a' b' c', where ext = frames and inp = loud_block and t = 0] d' e' g'
  have second: "\<exists>fs s'. process frames loud_block 0 ?s' = Some (Inr (fs, s')) \<and>
          slots fs = ([], [\<lparr> hasTimestamp = True, timestamp = 0, values_f = [] \<rparr>],
                      [\<lparr> hasTimestamp = True, timestamp = 0, values_f = [1] \<rparr>])"
    by auto
  from a b c d first a' b' c' d' second show ?thesis
    by blast
qed

subsection \<open>Calling \<open>initialise\<close> again\<close>

text \<open>
  C4, as stated, fails: after a first silent block, a second call of \<open>initialise\<close> leaves
  \<^verbatim>\<open>m_first\<close> false, and the next silent block produces no feature at all, where a first
  block produces a level sample and an instant.
\<close>

theorem reinitialise_counterexample:
  "session frames 44100
     [Initialise 1 8 8, Process quiet_block 0, Initialise 1 8 8, Process quiet_block 8] =
     Some (Inr [([\<lparr> hasTimestamp = True, timestamp = 0, values_f = [] \<rparr>], [],
                 [\<lparr> hasTimestamp = True, timestamp = 0, values_f = [0] \<rparr>]),
                ([], [], [])]) \<and>
   \<not> m_first (state_after frames 44100
                 [Initialise 1 8 8, Process quiet_block 0, Initialise 1 8 8])"
  by code_simp

text \<open>
  C4, amended. A call of \<open>initialise\<close> on an object that is already in use records the
  three sizes and allocates both buffers anew, on fresh zero-filled storage next to the
  old storage, which it leaves as it was; the buffers have the new sizes, taken modulo
  \<open>2 ^ 32\<close> as \<^verbatim>\<open>new_fvec\<close> receives them, and the object is initialised when both sizes
  are below \<open>2 ^ 32\<close>. The call does not reset the classification state: \<^verbatim>\<open>m_first\<close>,
  \<^verbatim>\<open>m_prevSilent\<close> and the threshold keep their values. So when a block had been processed
  before (\<^verbatim>\<open>m_first\<close> false), the next block is not treated as a first block: if its class
  equals \<^verbatim>\<open>m_prevSilent\<close>, \<open>process\<close> returns the empty feature set.
\<close>

theorem initialise_keeps_classification:
  "fst (initialise chans n b s) = True \<and>
   m_first (snd (initialise chans n b s)) = m_first s \<and>
   m_prevSilent (snd (initialise chans n b s)) = m_prevSilent s \<and>
   m_threshold (snd (initialise chans n b s)) = m_threshold s \<and>
   m_channelCount (snd (initialise chans n b s)) = chans \<and>
   m_stepSize (snd (initialise chans n b s)) = n \<and>
   m_blockSize (snd (initialise chans n b s)) = b \<and>
   m_ibuf (snd (initialise chans n b s)) =
     Some \<lparr> length_t = uint_t n, channels = uint_t chans, data = Rows (length (heap s)) 0 \<rparr> \<and>
   m_pbuf (snd (initialise chans n b s)) =
     Some \<lparr> length_t = uint_t n, channels = uint_t chans,
            data = Rows (Suc (length (heap s))) 0 \<rparr> \<and>
   heap (snd (initialise chans n b s)) =
     heap s @ [replicate (uint_t chans) (replicate (uint_t n) 0),
               replicate (uint_t chans) (replicate (uint_t n) 0)] \<and>
   (chans < 2 ^ 32 \<and> n < 2 ^ 32 \<longrightarrow> initialised (snd (initialise chans n b s))) \<and>
   (\<not> m_first s \<and>
    block_silent ext inp (snd (initialise chans n b s)) = m_prevSilent s \<longrightarrow>
    (\<exists>s'. process ext inp t (snd (initialise chans n b s)) = Some (Inr (Map.empty, s'))))"
proof -
  let ?s = "snd (initialise chans n b s)"
  have "\<exists>s'. process ext inp t ?s = Some (Inr (Map.empty, s'))"
    if "\<not> m_first s" "block_silent ext inp ?s = m_prevSilent s"
  proof -
    have "m_ibuf ?s = Some \<lparr> length_t = uint_t n, channels = uint_t chans,
                              data = Rows (length (heap s)) 0 \<rparr>"
      and "m_pbuf ?s = Some \<lparr> length_t = uint_t n, channels = uint_t chans,
                               data = Rows (Suc (length (heap s))) 0 \<rparr>"
      and "\<not> m_first ?s" and "block_silent ext inp ?s = m_prevSilent ?s"
      using that by (simp_all add: initialise_result)
    then show ?thesis
      by (simp add: process_unfold)
  qed
  then show ?thesis
    using initialise_initialised [of chans n b s] by (simp add: initialise_result)
qed

theorem initialise_keeps_classification_witness:
  "\<not> m_first (state_after frames 44100 [Initialise 1 8 8, Process quiet_block 0]) \<and>
   m_prevSilent (state_after frames 44100 [Initialise 1 8 8, Process quiet_block 0]) \<and>
   block_silent frames quiet_block
     (snd (initialise 2 16 16 (state_after frames 44100 [Initialise 1 8 8, Process quiet_block 0]))) \<and>
   initialised
     (snd (initialise 2 16 16 (state_after frames 44100 [Initialise 1 8 8, Process quiet_block 0]))) \<and>
   \<not> m_first
     (snd (initialise 2 16 16 (state_after frames 44100 [Initialise 1 8 8, Process quiet_block 0]))) \<and>
   (\<exists>s'. process frames quiet_block 8
            (snd (initialise 2 16 16
                    (state_after frames 44100 [Initialise 1 8 8, Process quiet_block 0]))) =
          Some (Inr (Map.empty, s')))"
proof -
  let ?s = "state_after frames 44100 [Initialise 1 8 8, Process quiet_block 0]"
  have a: "\<not> m_first ?s" by code_simp
  have b: "m_prevSilent ?s" by code_simp
  have c: "block_silent frames quiet_block (snd (initialise 2 16 16 ?s))" by code_simp
  have d: "(2::nat) < 2 ^ 32 \<and> (16::nat) < 2 ^ 32" by simp
  from initialise_keeps_classification
         [where chans = 2 and n = 16 and b = 16 and s = ?s and ext = frames
            and inp = quiet_block and t = 8]
       a b c d
  show ?thesis
    by simp
qed

subsection \<open>The step and the windows of the searches\<close>

lemma forward_search_agree:
  assumes "\<And>v. length_t v = uint_t (incr * 4) \<Longrightarrow>
             aubio_silence_detection ext (heap s) v (m_threshold s) =
             aubio_silence_detection ext' (heap s) v (m_threshold s)"
  shows "forward_search ext s ib silent incr i = forward_search ext' s ib silent incr i"
proof -
  have win: "aubio_silence_detection ext (heap s) (forward_window s ib incr i) (m_threshold s) =
        aubio_silence_detection ext' (heap s) (forward_window s ib incr i) (m_threshold s)" for i
    by (rule assms) (simp add: forward_window_def sub_vec_def)
  show ?thesis
  proof (cases "incr = 0")
    case True
    with win [of i]
    have "aubio_silence_detection ext (heap s) (forward_window s ib 0 i) (m_threshold s) =
          aubio_silence_detection ext' (heap s) (forward_window s ib 0 i) (m_threshold s)"
      by simp
    with True show ?thesis
      by (simp add: forward_search_run)
  next
    case False
    then show ?thesis
      by (simp only: forward_search_run if_False win)
  qed
qed

lemma backward_search_agree:
  assumes "\<And>v. length_t v = uint_t (incr * 4) \<Longrightarrow>
             aubio_silence_detection ext (heap s) v (m_threshold s) =
             aubio_silence_detection ext' (heap s) v (m_threshold s)"
  shows "backward_search ext s pb incr i = backward_search ext' s pb incr i"
proof -
  have win: "aubio_silence_detection ext (heap s) (backward_window s pb incr i) (m_threshold s) =
        aubio_silence_detection ext' (heap s) (backward_window s pb incr i) (m_threshold s)" for i
    by (rule assms) (simp add: backward_window_def sub_vec_def)
  show ?thesis
  proof (cases "incr = 0")
    case True
    with win [of i]
    have "aubio_silence_detection ext (heap s) (backward_window s pb 0 i) (m_threshold s) =
          aubio_silence_detection ext' (heap s) (backward_window s pb 0 i) (m_threshold s)"
      by simp
    with True show ?thesis
      by (simp add: backward_search_run)
  next
    case False
    then show ?thesis
      by (simp only: backward_search_run if_False win)
  qed
qed

text \<open>
  C7. For every step size the search step is \<open>min 16 (stepSize div 8)\<close>. Every window the
  forward and the backward search hand to the level test has exactly four times that many
  samples, and the offset found depends on the level test through windows of that length
  only: two level tests that agree on them give the same result, the same non-termination
  included.
\<close>

theorem search_step_and_window:
  "incr_of n = min 16 (n div 8) \<and>
   length_t (forward_window s ib (incr_of (m_stepSize s)) i) = 4 * incr_of (m_stepSize s) \<and>
   length_t (backward_window s pb (incr_of (m_stepSize s)) i) = 4 * incr_of (m_stepSize s) \<and>
   ((\<forall>v. length_t v = 4 * incr_of (m_stepSize s) \<longrightarrow>
         aubio_silence_detection ext (heap s) v (m_threshold s) =
         aubio_silence_detection ext' (heap s) v (m_threshold s)) \<longrightarrow>
    refine ext s ib pb silent = refine ext' s ib pb silent)"
proof -
  have "refine ext s ib pb silent = refine ext' s ib pb silent"
    if "\<forall>v. length_t v = 4 * incr_of (m_stepSize s) \<longrightarrow>
         aubio_silence_detection ext (heap s) v (m_threshold s) =
         aubio_silence_detection ext' (heap s) v (m_threshold s)"
  proof -
    from that
    have "forward_search ext s ib silent (incr_of (m_stepSize s)) 0 =
          forward_search ext' s ib silent (incr_of (m_stepSize s)) 0"
      by (intro forward_search_agree) (simp add: uint_t_window)
    moreover from that
    have "backward_search ext s pb (incr_of (m_stepSize s)) 0 =
          backward_search ext' s pb (incr_of (m_stepSize s)) 0"
      by (intro backward_search_agree) (simp add: uint_t_window)
    ultimately show ?thesis
      by (simp only: refine_def Let_def)
  qed
  then show ?thesis
    by (simp add: incr_of_min [of n] forward_window_def backward_window_def sub_vec_def
        uint_t_window)
qed

theorem search_step_and_window_witness:
  "incr_of 8 = min 16 (8 div 8) \<and>
   length_t (forward_window (loaded (state_after frames 44100 [Initialise 1 8 8]) late_block)
               \<lparr> length_t = 8, channels = 1, data = Rows 0 0 \<rparr> 1 3) = 4 \<and>
   refine frames (loaded (state_after frames 44100 [Initialise 1 8 8]) late_block)
     \<lparr> length_t = 8, channels = 1, data = Rows 0 0 \<rparr>
     \<lparr> length_t = 8, channels = 1, data = Rows 1 0 \<rparr> False = Some 2 \<and>
   refine picky (loaded (state_after frames 44100 [Initialise 1 8 8]) late_block)
     \<lparr> length_t = 8, channels = 1, data = Rows 0 0 \<rparr>
     \<lparr> length_t = 8, channels = 1, data = Rows 1 0 \<rparr> False = Some 2"
proof -
  let ?s = "loaded (state_after frames 44100 [Initialise 1 8 8]) late_block"
  let ?ib = "\<lparr> length_t = 8, channels = 1, data = Rows 0 0 \<rparr>"
  let ?pb = "\<lparr> length_t = 8, channels = 1, data = Rows 1 0 \<rparr>"
  have step: "incr_of (m_stepSize ?s) = 1" by code_simp
  have cls: "aubio_silence_detection picky h v thr =
             (if length_t v = 4 then aubio_silence_detection frames h v thr else True)" for h v thr
    by (simp add: picky_def frames_def)
  have same: "\<forall>v. length_t v = 4 * incr_of (m_stepSize ?s) \<longrightarrow>
          aubio_silence_detection frames (heap ?s) v (m_threshold ?s) =
          aubio_silence_detection picky (heap ?s) v (m_threshold ?s)"
    using step by (simp add: cls)
  have run: "refine frames ?s ?ib ?pb False = Some 2" by code_simp
  from search_step_and_window
         [where n = 8 and s = ?s and ib = ?ib and pb = ?pb and i = 3 and ext = frames
            and ext' = picky and silent = False]
       same step run
  show ?thesis
    by simp
qed

subsection \<open>Step sizes below 8\<close>

text \<open>
  With a step size from 1 to 7 the search step is 0. The forward search then probes the
  empty window at position 0 again and again: \<open>process\<close> does not return when that
  window's class differs from the block's class and the offset is to be refined.
\<close>

lemma process_stuck:
  assumes "m_ibuf s = Some ib" "m_pbuf s = Some pb"
    and "0 < m_stepSize s" "m_stepSize s < 8"
    and "m_first s \<or> m_prevSilent s \<noteq> block_silent ext inp s"
    and "\<not> (m_first s \<and> block_silent ext inp s)"
    and "block_silent ext inp s \<noteq>
         aubio_silence_detection ext (heap (loaded s inp)) (forward_window (loaded s inp) ib 0 0)
           (m_threshold s)"
  shows "process ext inp t s = None"
proof -
  have same: "m_stepSize (loaded s inp) = m_stepSize s" "m_threshold (loaded s inp) = m_threshold s"
    by (simp_all add: loaded_def split: option.splits)
  from assms(4) have "incr_of (m_stepSize s) = 0"
    by (simp add: incr_of_zero_iff)
  moreover have "forward_search ext (loaded s inp) ib (block_silent ext inp s) 0 0 = None"
    using assms(3,7) by (intro forward_search_stuck) (simp_all add: same)
  ultimately have "refine ext (loaded s inp) ib pb (block_silent ext inp s) = None"
    by (simp add: refine_def same)
  with assms(5,6) show ?thesis
    by (cases "block_silent ext inp s") (auto simp: process_unfold [OF assms(1,2)])
qed

text \<open>
  C2. The code has no guard for a search step of 0. With step size 4, one channel and a
  level test that does not call an empty window silent, a loud block followed by a quiet
  block makes the second call of \<open>process\<close> run forever.
\<close>

theorem process_small_step_diverges:
  "session frames 44100 [Initialise 1 4 4, Process loud_block 0] =
     Some (Inr [([], [\<lparr> hasTimestamp = True, timestamp = 0, values_f = [] \<rparr>],
                 [\<lparr> hasTimestamp = True, timestamp = 0, values_f = [1] \<rparr>])]) \<and>
   initialised (state_after frames 44100 [Initialise 1 4 4, Process loud_block 0]) \<and>
   process frames quiet_block 4 (state_after frames 44100 [Initialise 1 4 4, Process loud_block 0]) =
     None"
  by code_simp

text \<open>
  C5. In the same call the forward search finds no position whose window has the block's
  class, and does not leave \<^verbatim>\<open>off\<close> at 0: it does not end. (For a search step above 0,
  lemma \<open>forward_search_found\<close> gives the first matching position among
  \<open>0, incr, 2 * incr, \<dots>\<close> below \<open>stepSize - 4 * incr\<close>, and 0 when there is none.)
\<close>

theorem forward_search_zero_step:
  "m_ibuf (state_after frames 44100 [Initialise 1 4 4, Process loud_block 0]) =
     Some \<lparr> length_t = 4, channels = 1, data = Rows 1 0 \<rparr> \<and>
   \<not> m_first (state_after frames 44100 [Initialise 1 4 4, Process loud_block 0]) \<and>
   \<not> m_prevSilent (state_after frames 44100 [Initialise 1 4 4, Process loud_block 0]) \<and>
   block_silent frames quiet_block (state_after frames 44100 [Initialise 1 4 4, Process loud_block 0]) \<and>
   incr_of 4 = 0 \<and>
   forward_search frames
     (loaded (state_after frames 44100 [Initialise 1 4 4, Process loud_block 0]) quiet_block)
     \<lparr> length_t = 4, channels = 1, data = Rows 1 0 \<rparr> True (incr_of 4) 0 = None"
  by code_simp

subsection \<open>Where the backward search looks\<close>

text \<open>
  The window the backward search probes at counter \<open>i\<close> starts \<open>i + incr\<close> samples before
  the end of the previous block and is \<open>4 * incr\<close> samples long: it ends \<open>3 * incr - i\<close>
  samples after the end of the buffer for \<open>i < 3 * incr\<close>.
\<close>

lemma backward_window_end:
  assumes "skip (data pb) = 0" "incr = incr_of (m_stepSize s)" "i < m_stepSize s - incr"
  shows "skip (data (backward_window s pb incr i)) + length_t (backward_window s pb incr i) =
         m_stepSize s - i + 3 * incr"
  using assms
  by (cases "data pb") (simp add: backward_window_def sub_vec_def uint_t_window)

text \<open>
  C3. With step size 8 (search step 1), a loud block followed by a quiet block: the forward
  search leaves \<^verbatim>\<open>off\<close> at 0, and the first probe of the backward search is the window of
  4 samples that starts at sample 7 of the previous block's 8 samples. It does not end at
  the end of that block but 3 samples after it.
\<close>

theorem backward_window_overrun:
  "m_pbuf (state_after frames 44100 [Initialise 1 8 8, Process loud_block 0]) =
     Some \<lparr> length_t = 8, channels = 1, data = Rows 0 0 \<rparr> \<and>
   block_silent frames quiet_block (state_after frames 44100 [Initialise 1 8 8, Process loud_block 0]) \<and>
   forward_search frames
     (loaded (state_after frames 44100 [Initialise 1 8 8, Process loud_block 0]) quiet_block)
     \<lparr> length_t = 8, channels = 1, data = Rows 1 0 \<rparr> True (incr_of 8) 0 = Some 0 \<and>
   backward_window
     (loaded (state_after frames 44100 [Initialise 1 8 8, Process loud_block 0]) quiet_block)
     \<lparr> length_t = 8, channels = 1, data = Rows 0 0 \<rparr> (incr_of 8) 0 =
     \<lparr> length_t = 4, channels = 1, data = Rows 0 7 \<rparr> \<and>
   map length (heap (loaded (state_after frames 44100 [Initialise 1 8 8, Process loud_block 0])
                       quiet_block) ! 0) = [8]"
  by code_simp

end
